theory Spec2Isabelle
  imports Main "HOL-Library.Multiset" "HOL-Library.Char_ord" "HOL-Library.List_Lexorder"
    "HOL-Library.Product_Lexorder"
begin

unbundle bit_operations_syntax

section \<open>Bytes, decimal and hexadecimal text\<close>

text \<open>
  Go strings and byte slices are sequences of bytes; both are lists of 8-bit characters
  here. Comparison of Go strings with \<open><\<close> is bytewise lexicographic, which is the order
  of \<open>char list\<close>.
\<close>

type_synonym bytes = string

definition NUL :: char where
  "NUL = CHR 0x00"

definition NL :: char where
  "NL = CHR 0x0A"

text \<open>The verb \<open>%d\<close> of \<open>fmt.Sprintf\<close> on a length: decimal digits, no leading zero.\<close>

definition digit :: "nat \<Rightarrow> char" where
  "digit d = char_of (48 + d)"

fun dec :: "nat \<Rightarrow> string" where
  "dec n = (if n < 10 then [digit n] else dec (n div 10) @ [digit (n mod 10)])"

declare dec.simps [simp del]

text \<open>Reading decimal digits back, to state that \<open>dec\<close> is the decimal numeral.\<close>

definition undec :: "string \<Rightarrow> nat" where
  "undec s = foldl (\<lambda>a c. 10 * a + (of_char c - 48)) 0 s"

text \<open>\<open>hex.EncodeToString\<close>: two lower-case digits per byte, high nibble first.\<close>

definition hexdigit :: "nat \<Rightarrow> char" where
  "hexdigit n = ''0123456789abcdef'' ! (n mod 16)"

definition hex_EncodeToString :: "bytes \<Rightarrow> string" where
  "hex_EncodeToString bs =
     concat (map (\<lambda>c. [hexdigit (of_char c div 16), hexdigit (of_char c mod 16)]) bs)"

section \<open>SHA-1\<close>

text \<open>
  \<open>sha1.Sum\<close> of the Go library, after FIPS 180-4. 32-bit words are integers in
  \<open>0 ..< 2 ^ 32\<close> with the wrap-around written out.
\<close>

type_synonym u32 = int

definition add32 :: "u32 \<Rightarrow> u32 \<Rightarrow> u32" where
  "add32 x y = (x + y) mod 4294967296"

definition rotl :: "nat \<Rightarrow> u32 \<Rightarrow> u32" where
  "rotl n x = (x * 2 ^ n) mod 4294967296 OR x div 2 ^ (32 - n)"

definition not32 :: "u32 \<Rightarrow> u32" where
  "not32 x = 4294967295 - x"

definition be32 :: "bytes \<Rightarrow> u32" where
  "be32 bs = foldl (\<lambda>w c. w * 256 + of_char c) 0 (take 4 bs)"

definition put32 :: "u32 \<Rightarrow> bytes" where
  "put32 w = map (\<lambda>i. char_of (w div 2 ^ i)) [24, 16, 8, 0]"

definition put64 :: "int \<Rightarrow> bytes" where
  "put64 w = map (\<lambda>i. char_of (w div 2 ^ i)) [56, 48, 40, 32, 24, 16, 8, 0]"

definition sha1_pad :: "bytes \<Rightarrow> bytes" where
  "sha1_pad m =
     m @ [CHR 0x80] @ replicate ((119 - length m mod 64) mod 64) (CHR 0x00)
       @ put64 (8 * int (length m))"

fun chunks :: "nat \<Rightarrow> bytes \<Rightarrow> bytes list" where
  "chunks 0 bs = []"
| "chunks (Suc k) bs = take 64 bs # chunks k (drop 64 bs)"

text \<open>The message schedule, newest word first: \<open>ws ! 2\<close> is \<open>w[t-3]\<close>.\<close>

fun schedule :: "nat \<Rightarrow> u32 list \<Rightarrow> u32 list" where
  "schedule 0 ws = ws"
| "schedule (Suc k) ws =
     schedule k (rotl 1 (ws ! 2 XOR ws ! 7 XOR ws ! 13 XOR ws ! 15) # ws)"

type_synonym sha1_state = "u32 \<times> u32 \<times> u32 \<times> u32 \<times> u32"

definition sha1_f :: "nat \<Rightarrow> u32 \<Rightarrow> u32 \<Rightarrow> u32 \<Rightarrow> u32" where
  "sha1_f i b c d =
     (if i < 20 then (b AND c) OR (not32 b AND d)
      else if i < 40 then b XOR c XOR d
      else if i < 60 then (b AND c) OR (b AND d) OR (c AND d)
      else b XOR c XOR d)"

definition sha1_k :: "nat \<Rightarrow> u32" where
  "sha1_k i =
     (if i < 20 then 0x5A827999 else if i < 40 then 0x6ED9EBA1
      else if i < 60 then 0x8F1BBCDC else 0xCA62C1D6)"

fun rounds :: "nat \<Rightarrow> u32 list \<Rightarrow> sha1_state \<Rightarrow> sha1_state" where
  "rounds i [] s = s"
| "rounds i (w # ws) (a, b, c, d, e) =
     rounds (Suc i) ws
       (add32 (add32 (add32 (add32 (rotl 5 a) (sha1_f i b c d)) e) w) (sha1_k i),
        a, rotl 30 b, c, d)"

definition block :: "sha1_state \<Rightarrow> bytes \<Rightarrow> sha1_state" where
  "block s p =
     (case s of (h0, h1, h2, h3, h4) \<Rightarrow>
        (case rounds 0
                (rev (schedule 64 (rev (map (\<lambda>i. be32 (drop (4 * i) p)) [0..<16])))) s of
           (a, b, c, d, e) \<Rightarrow>
             (add32 h0 a, add32 h1 b, add32 h2 c, add32 h3 d, add32 h4 e)))"

definition sha1_Sum :: "bytes \<Rightarrow> bytes" where
  "sha1_Sum m =
     (let p = sha1_pad m in
      case foldl block (0x67452301, 0xEFCDAB89, 0x98BADCFE, 0x10325476, 0xC3D2E1F0)
             (chunks (length p div 64) p) of
        (h0, h1, h2, h3, h4) \<Rightarrow> put32 h0 @ put32 h1 @ put32 h2 @ put32 h3 @ put32 h4)"

section \<open>The library and the world outside the program\<close>

text \<open>
  Library code the program calls and whose source is not part of the repository is a
  parameter of the model:
  \<^item> \<open>zlib_Write\<close>: what \<open>zlib.NewWriter\<close>, \<open>Write\<close> and \<open>Close\<close> leave in the buffer;
  \<^item> \<open>zlib_Read\<close>: \<open>None\<close> when \<open>zlib.NewReader\<close> returns an error, otherwise the bytes
    \<open>io.ReadAll\<close> delivers (its error is discarded by the program);
  \<^item> \<open>unicode_ToLower\<close>: \<open>strings.ToLower\<close> on a string that is not pure ASCII.
\<close>

record golib =
  zlib_Write :: "bytes \<Rightarrow> bytes"
  zlib_Read :: "bytes \<Rightarrow> bytes option"
  unicode_ToLower :: "string \<Rightarrow> string"

text \<open>
  The part of the file system the object store lives in: the directories made, the files
  by path, and which paths the operating system refuses to create or to write.
\<close>

record world =
  dirs :: "string set"
  files :: "string \<rightharpoonup> bytes"
  mkdir_fails :: "string \<Rightarrow> bool"
  write_fails :: "string \<Rightarrow> bool"

text \<open>
  Every way the program stops early: \<open>os.Exit(1)\<close> after a failed call, or a run-time
  panic on an index or slice out of range.
\<close>

datatype error =
    ExitReadFile
  | ExitMkdirAll
  | ExitWriteFile
  | ExitZlibReader
  | PanicOutOfRange

type_synonym 'a result = "(error + 'a) \<times> world"

text \<open>
  \<open>filepath.Join\<close>: the non-empty elements joined by a slash. The cleaning step of the
  library is the identity on the paths built below, whose elements are a fixed prefix
  and hexadecimal digits.
\<close>

definition filepath_Join :: "string list \<Rightarrow> string" where
  "filepath_Join elems =
     (case filter (\<lambda>e. e \<noteq> []) elems of
        [] \<Rightarrow> []
      | e # es \<Rightarrow> e @ concat (map (\<lambda>x. CHR ''/'' # x) es))"

text \<open>The directories \<open>os.MkdirAll\<close> makes sure of: the path and each parent.\<close>

definition path_prefixes :: "string \<Rightarrow> string list" where
  "path_prefixes p = map (\<lambda>i. take i p) (filter (\<lambda>i. p ! i = CHR ''/'') [1..<length p]) @ [p]"

section \<open>The object store\<close>

definition compressContent :: "golib \<Rightarrow> bytes \<Rightarrow> bytes" where
  "compressContent L content = zlib_Write L content"

definition objectsDir :: string where
  "objectsDir = ''.git/objects''"

definition writeObject :: "bytes \<Rightarrow> bytes \<Rightarrow> world \<Rightarrow> unit result" where
  "writeObject hash content w =
     (let hashString = hex_EncodeToString hash in
      if length hashString < 2 then (Inl PanicOutOfRange, w)
      else
        let objectFileDir = filepath_Join [objectsDir, take 2 hashString];
            objectFilePath = filepath_Join [objectFileDir, drop 2 hashString]
        in if mkdir_fails w objectFileDir then (Inl ExitMkdirAll, w)
           else
             let w1 = w\<lparr>dirs := dirs w \<union> set (path_prefixes objectFileDir)\<rparr>
             in if write_fails w1 objectFilePath then (Inl ExitWriteFile, w1)
                else (Inr (), w1\<lparr>files := (files w1)(objectFilePath \<mapsto> content)\<rparr>))"

definition createObject :: "golib \<Rightarrow> string \<Rightarrow> bytes \<Rightarrow> world \<Rightarrow> bytes result" where
  "createObject L objectType content w =
     (let objectContent = objectType @ '' '' @ dec (length content) @ [NUL] @ content;
          hash = sha1_Sum objectContent;
          compressedContent = compressContent L objectContent
      in case writeObject hash compressedContent w of
           (Inl e, w') \<Rightarrow> (Inl e, w')
         | (Inr _, w') \<Rightarrow> (Inr hash, w'))"

definition readAndDecompressFile :: "golib \<Rightarrow> string \<Rightarrow> world \<Rightarrow> error + bytes" where
  "readAndDecompressFile L filePath w =
     (case files w filePath of
        None \<Rightarrow> Inl ExitReadFile
      | Some fileBytes \<Rightarrow>
          (case zlib_Read L fileBytes of
             None \<Rightarrow> Inl ExitZlibReader
           | Some decompressedBytes \<Rightarrow> Inr decompressedBytes))"

text \<open>
  \<open>strings.SplitN(s, sep, 2)\<close> for a one-byte separator: the part before the first
  separator and the unsplit rest, or the whole string alone when there is no separator.
\<close>

definition strings_SplitN2 :: "string \<Rightarrow> char \<Rightarrow> string list" where
  "strings_SplitN2 s sep =
     (if sep \<in> set s
      then [takeWhile (\<lambda>c. c \<noteq> sep) s, tl (dropWhile (\<lambda>c. c \<noteq> sep) s)]
      else [s])"

text \<open>The decoding step of \<open>catFile\<close>: element 1 of the split, a panic when there is none.\<close>

definition blobContent :: "string \<Rightarrow> error + string" where
  "blobContent content =
     (let parts = strings_SplitN2 content NUL
      in if 1 < length parts then Inr (parts ! 1) else Inl PanicOutOfRange)"

text \<open>\<open>catFile\<close> returns what it prints on standard output.\<close>

definition catFile :: "golib \<Rightarrow> string \<Rightarrow> world \<Rightarrow> error + string" where
  "catFile L blobSHA w =
     (if length blobSHA < 2 then Inl PanicOutOfRange
      else
        let blobPath = filepath_Join [''.git/objects'', take 2 blobSHA, drop 2 blobSHA]
        in case readAndDecompressFile L blobPath w of
             Inl e \<Rightarrow> Inl e
           | Inr content \<Rightarrow> blobContent content)"

section \<open>The work tree and the tree builder\<close>

text \<open>
  A node of the work tree is what the program can learn about a path: a non-directory
  with the result of \<open>os.ReadFile\<close> on it (\<open>None\<close> when reading fails), or a directory
  with its children as the operating system lists them and, when reading the directory
  fails, the number of children delivered before the failure.
\<close>

datatype node =
    File "bytes option"
  | Dir "(string \<times> node) list" "nat option"

definition IsDir :: "node \<Rightarrow> bool" where
  "IsDir n = (case n of Dir _ _ \<Rightarrow> True | File _ \<Rightarrow> False)"

text \<open>
  \<open>os.ReadDir\<close> returns the entries it could read, sorted by file name, and the error.
  On a path that is not a directory it returns no entry and an error.
\<close>

definition os_ReadDir :: "node \<Rightarrow> (string \<times> node) list \<times> bool" where
  "os_ReadDir n =
     (case n of
        File _ \<Rightarrow> ([], True)
      | Dir es None \<Rightarrow> (sort_key fst es, False)
      | Dir es (Some k) \<Rightarrow> (sort_key fst (take k es), True))"

text \<open>
  \<open>strings.ToLower\<close>: on a pure ASCII string the letters \<open>A\<close> to \<open>Z\<close> move to lower
  case; any other string goes through the Unicode tables of the library.
\<close>

definition strings_ToLower :: "golib \<Rightarrow> string \<Rightarrow> string" where
  "strings_ToLower L s =
     (if list_all (\<lambda>c. of_char c < (128 :: nat)) s
      then map (\<lambda>c. if CHR ''A'' \<le> c \<and> c \<le> CHR ''Z''
                     then char_of (of_char c + (32 :: nat)) else c) s
      else unicode_ToLower L s)"

text \<open>
  \<open>sort.Slice\<close> (Go 1.19 and later) runs an insertion sort on a slice of at most twelve
  elements: each element in turn is swapped towards the front while it is less than its
  left neighbour. On a longer slice the library switches to a pattern-defeating
  quicksort, which yields the same result whenever no two elements compare as equal; the
  insertion sort stands for it on every length here. \<open>insert_back\<close> works on the sorted
  prefix in reverse.
\<close>

fun insert_back :: "('a \<Rightarrow> 'a \<Rightarrow> bool) \<Rightarrow> 'a \<Rightarrow> 'a list \<Rightarrow> 'a list" where
  "insert_back lt x [] = [x]"
| "insert_back lt x (y # ys) =
     (if lt x y then y # insert_back lt x ys else x # y # ys)"

definition sort_Slice :: "('a \<Rightarrow> 'a \<Rightarrow> bool) \<Rightarrow> 'a list \<Rightarrow> 'a list" where
  "sort_Slice lt xs = rev (foldl (\<lambda>acc x. insert_back lt x acc) [] xs)"

record HashedEntry =
  mode :: string
  name :: string
  hash :: bytes

text \<open>The second loop of \<open>createTreeObjects\<close>: the entries formatted one after another.\<close>

definition treeObjectContent :: "HashedEntry list \<Rightarrow> bytes" where
  "treeObjectContent hashedEntries =
     foldl (\<lambda>acc he. acc @ mode he @ '' '' @ name he @ [NUL] @ hash he) [] hashedEntries"

definition createFileBlobObject :: "golib \<Rightarrow> bytes option \<Rightarrow> world \<Rightarrow> bytes result" where
  "createFileBlobObject L fp w =
     (case fp of
        None \<Rightarrow> (Inl ExitReadFile, w)
      | Some fileBytes \<Rightarrow> createObject L ''blob'' fileBytes w)"

fun nsize :: "node \<Rightarrow> nat" where
  "nsize (File _) = 1"
| "nsize (Dir es _) = Suc (sum_list (map (\<lambda>(_, n). nsize n) es))"

text \<open>
  \<open>createTreeObjects\<close> with its first loop, \<open>hashEntries\<close>, which walks the sorted entries
  and appends one \<open>HashedEntry\<close> for each entry other than a directory named \<open>.git\<close>.
\<close>

function createTreeObjects :: "golib \<Rightarrow> node \<Rightarrow> world \<Rightarrow> bytes result"
  and hashEntries :: "golib \<Rightarrow> (string \<times> node) list \<Rightarrow> world \<Rightarrow> HashedEntry list result"
where
  "createTreeObjects L n w =
     (let entries = sort_Slice
            (\<lambda>a b. strings_ToLower L (fst a) < strings_ToLower L (fst b))
            (fst (os_ReadDir n))
      in case hashEntries L entries w of
           (Inl e, w') \<Rightarrow> (Inl e, w')
         | (Inr hashedEntries, w') \<Rightarrow>
             createObject L ''tree'' (treeObjectContent hashedEntries) w')"
| "hashEntries L [] w = (Inr [], w)"
| "hashEntries L ((nm, Dir es f) # rest) w =
     (if nm = ''.git'' then hashEntries L rest w
      else
        case createTreeObjects L (Dir es f) w of
          (Inl e, w') \<Rightarrow> (Inl e, w')
        | (Inr h, w') \<Rightarrow>
            (case hashEntries L rest w' of
               (Inl e, w'') \<Rightarrow> (Inl e, w'')
             | (Inr hashedEntries, w'') \<Rightarrow>
                 (Inr (\<lparr>mode = ''40000'', name = nm, hash = h\<rparr> # hashedEntries), w'')))"
| "hashEntries L ((nm, File fp) # rest) w =
     (case createFileBlobObject L fp w of
        (Inl e, w') \<Rightarrow> (Inl e, w')
      | (Inr h, w') \<Rightarrow>
          (case hashEntries L rest w' of
             (Inl e, w'') \<Rightarrow> (Inl e, w'')
           | (Inr hashedEntries, w'') \<Rightarrow>
               (Inr (\<lparr>mode = ''100644'', name = nm, hash = h\<rparr> # hashedEntries), w'')))"
  by pat_completeness auto

termination
proof (relation "measure (\<lambda>x. case x of
          Inl (L, n, w) \<Rightarrow> 2 * nsize n
        | Inr (L, es, w) \<Rightarrow> Suc (2 * sum_list (map (\<lambda>(_, n). nsize n) es)))")
  have ins: "mset (insert_back lt x ys) = add_mset x (mset ys)"
    for lt :: "'b \<Rightarrow> 'b \<Rightarrow> bool" and x ys
    by (induction ys) auto
  have fold: "mset (foldl (\<lambda>acc x. insert_back lt x acc) acc xs) = mset acc + mset xs"
    for lt :: "'b \<Rightarrow> 'b \<Rightarrow> bool" and acc xs
    by (induction xs arbitrary: acc) (auto simp: ins)
  have srt: "mset (sort_Slice lt xs) = mset xs" for lt :: "'b \<Rightarrow> 'b \<Rightarrow> bool" and xs
    by (simp add: sort_Slice_def fold)
  have sum_mset: "sum_list (map g xs) = sum_list (map g ys)" if "mset xs = mset ys"
    for g :: "'b \<Rightarrow> nat" and xs ys
    using that by (metis mset_map sum_mset_sum_list)
  have tk: "sum_list (map g (take k xs)) \<le> sum_list (map g xs)" for g :: "'b \<Rightarrow> nat" and k xs
    by (metis append_take_drop_id le_add1 map_append sum_list.append)
  have rd: "sum_list (map (\<lambda>(_, n). nsize n) (fst (os_ReadDir n))) < nsize n" for n
  proof (cases n)
    case (File x)
    then show ?thesis by (simp add: os_ReadDir_def)
  next
    case (Dir es f)
    show ?thesis
    proof (cases f)
      case None
      with Dir show ?thesis
        by (simp add: os_ReadDir_def sum_mset [of "sort_key fst es" es])
    next
      case (Some k)
      have "sum_list (map (\<lambda>(_, n). nsize n) (sort_key fst (take k es)))
              = sum_list (map (\<lambda>(_, n). nsize n) (take k es))"
        by (rule sum_mset) simp
      with Dir Some tk [of "\<lambda>(_, n). nsize n" k es] show ?thesis
        by (simp add: os_ReadDir_def)
    qed
  qed
  show "wf (measure (\<lambda>x. case x of
          Inl (L, n, w) \<Rightarrow> 2 * nsize n
        | Inr (L, es, w) \<Rightarrow> Suc (2 * sum_list (map (\<lambda>(_, n). nsize n) es))))"
    by simp
  show "(Inr (L, x, w), Inl (L, n, w))
          \<in> measure (\<lambda>x. case x of
                Inl (L, n, w) \<Rightarrow> 2 * nsize n
              | Inr (L, es, w) \<Rightarrow> Suc (2 * sum_list (map (\<lambda>(_, n). nsize n) es)))"
    if "x = sort_Slice (\<lambda>a b. strings_ToLower L (fst a) < strings_ToLower L (fst b))
              (fst (os_ReadDir n))"
    for L n w x
    using rd [of n] that
      sum_mset [OF srt, of "\<lambda>(_, n). nsize n"
        "\<lambda>a b. strings_ToLower L (fst a) < strings_ToLower L (fst b)" "fst (os_ReadDir n)"]
    by simp
qed auto

text \<open>
  The tree object as the specification words it. The children that get an entry are the
  sorted directory entries other than a directory named \<open>.git\<close>; an entry is the mode
  digits, a space, the name, a NUL byte and the 20 raw bytes of the child's object id;
  the id of a directory is the digest of its tree object, the id of a file the digest of
  the blob of its bytes.
\<close>

definition tree_children :: "golib \<Rightarrow> node \<Rightarrow> (string \<times> node) list" where
  "tree_children L n =
     filter (\<lambda>(nm, ch). \<not> (IsDir ch \<and> nm = ''.git''))
       (sort_Slice (\<lambda>a b. strings_ToLower L (fst a) < strings_ToLower L (fst b))
          (fst (os_ReadDir n)))"

definition entry_mode :: "node \<Rightarrow> string" where
  "entry_mode ch = (if IsDir ch then ''40000'' else ''100644'')"

function spec_object_id :: "golib \<Rightarrow> node \<Rightarrow> bytes" where
  "spec_object_id L (File fp) =
     (let content = (case fp of None \<Rightarrow> [] | Some b \<Rightarrow> b)
      in sha1_Sum (''blob '' @ dec (length content) @ [NUL] @ content))"
| "spec_object_id L (Dir es f) =
     (let content = concat (map (\<lambda>(nm, ch). entry_mode ch @ '' '' @ nm @ [NUL] @ spec_object_id L ch)
                             (tree_children L (Dir es f)))
      in sha1_Sum (''tree '' @ dec (length content) @ [NUL] @ content))"
  by pat_completeness auto

termination
proof (relation "measure (\<lambda>(L, n). nsize n)")
  have ins: "set (insert_back lt x ys) = insert x (set ys)"
    for lt :: "'b \<Rightarrow> 'b \<Rightarrow> bool" and x ys
    by (induction ys) auto
  have fold: "set (foldl (\<lambda>acc x. insert_back lt x acc) acc xs) = set acc \<union> set xs"
    for lt :: "'b \<Rightarrow> 'b \<Rightarrow> bool" and acc xs
    by (induction xs arbitrary: acc) (auto simp: ins)
  have srt: "set (sort_Slice lt xs) = set xs" for lt :: "'b \<Rightarrow> 'b \<Rightarrow> bool" and xs
    by (simp add: sort_Slice_def fold)
  have mem: "nsize ch < Suc (sum_list (map (\<lambda>(_, n). nsize n) es))"
    if "(nm, ch) \<in> set es" for nm ch and es :: "(string \<times> node) list"
    using that by (induction es) auto
  have rd: "set (fst (os_ReadDir (Dir es f))) \<subseteq> set es" for es f
    by (cases f) (auto simp: os_ReadDir_def dest: in_set_takeD)
  show "wf (measure (\<lambda>(L, n). nsize n))"
    by simp
  show "((L, ch), L, Dir es f) \<in> measure (\<lambda>(L, n). nsize n)"
    if "x \<in> set (tree_children L (Dir es f))" and "(nm, ch) = x" for L es f x nm ch
  proof -
    from that rd [of es f] have "(nm, ch) \<in> set es"
      by (auto simp: tree_children_def srt)
    from mem [OF this] show ?thesis by simp
  qed
qed


text \<open>An entry is kept unless it is a directory named \<open>.git\<close>.\<close>

definition kept :: "string \<times> node \<Rightarrow> bool" where
  "kept e = (\<not> (IsDir (snd e) \<and> fst e = ''.git''))"

definition spec_entry :: "golib \<Rightarrow> string \<times> node \<Rightarrow> HashedEntry" where
  "spec_entry L e = \<lparr>mode = entry_mode (snd e), name = fst e, hash = spec_object_id L (snd e)\<rparr>"

text \<open>
  A child has been built when its file could be read or, for a directory, when a run
  of \<open>createTreeObjects\<close> on it returned its id.
\<close>

definition built :: "golib \<Rightarrow> node \<Rightarrow> bool" where
  "built L ch =
     (case ch of
        File fp \<Rightarrow> fp \<noteq> None
      | Dir es f \<Rightarrow> (\<exists>v v'. createTreeObjects L ch v = (Inr (spec_object_id L ch), v')))"



text \<open>
  Two work trees are the same up to the order of the listings when, in every directory,
  the children sorted by name agree in their names and are again the same.
\<close>

inductive same_tree :: "node \<Rightarrow> node \<Rightarrow> bool" where
  same_File: "same_tree (File fp) (File fp)"
| same_Dir:
    "list_all2 (\<lambda>a b. fst a = fst b \<and> same_tree (snd a) (snd b))
       (sort_key fst es) (sort_key fst es') \<Longrightarrow>
     same_tree (Dir es None) (Dir es' None)"

definition same_entry :: "golib \<Rightarrow> string \<times> node \<Rightarrow> string \<times> node \<Rightarrow> bool" where
  "same_entry L a b =
     (fst a = fst b \<and> IsDir (snd a) = IsDir (snd b)
      \<and> (\<forall>w. createTreeObjects L (snd a) w = createTreeObjects L (snd b) w)
      \<and> (\<forall>fp. snd a = File fp \<longrightarrow> snd b = File fp))"

section \<open>Commands\<close>

text \<open>
  A command returns what it prints on standard output. \<open>hashObject\<close> takes the result of
  \<open>os.ReadFile\<close> on the named file, \<open>writeTree\<close> the node of the current directory,
  \<open>commitTree\<close> the argument vector \<open>os.Args\<close>.
\<close>

definition hashObject :: "golib \<Rightarrow> bytes option \<Rightarrow> world \<Rightarrow> string result" where
  "hashObject L filename w =
     (case filename of
        None \<Rightarrow> (Inl ExitReadFile, w)
      | Some fileBytes \<Rightarrow>
          (case createObject L ''blob'' fileBytes w of
             (Inl e, w') \<Rightarrow> (Inl e, w')
           | (Inr h, w') \<Rightarrow> (Inr (hex_EncodeToString h @ [NL]), w')))"

definition writeTree :: "golib \<Rightarrow> node \<Rightarrow> world \<Rightarrow> string result" where
  "writeTree L root w =
     (case createTreeObjects L root w of
        (Inl e, w') \<Rightarrow> (Inl e, w')
      | (Inr treeObjectHash, w') \<Rightarrow> (Inr (hex_EncodeToString treeObjectHash @ [NL]), w'))"

definition commitContent :: "string \<Rightarrow> string \<Rightarrow> string \<Rightarrow> string" where
  "commitContent treeSHA parentCommitSHA commitMessage =
     (let author = ''John Doe <john@example.com> 1631234567 -0700'';
          committer = ''Jane Smith <jane@example.com> 1631234789 -0700''
      in (''tree '' @ treeSHA @ [NL]) @ (''parent '' @ parentCommitSHA @ [NL])
           @ (''author '' @ author @ [NL]) @ (''committer '' @ committer @ [NL])
           @ ([NL] @ commitMessage @ [NL]))"

definition commitTree :: "golib \<Rightarrow> string list \<Rightarrow> world \<Rightarrow> string result" where
  "commitTree L args w =
     (if length args < 7 then (Inl PanicOutOfRange, w)
      else
        let content = commitContent (args ! 2) (args ! 4) (args ! 6);
            header = ''commit '' @ dec (length content) @ [NUL];
            payload = header @ content;
            h = sha1_Sum payload;
            compressedContent = compressContent L payload
        in case writeObject h compressedContent w of
             (Inl e, w') \<Rightarrow> (Inl e, w')
           | (Inr _, w') \<Rightarrow> (Inr (hex_EncodeToString h @ [NL]), w'))"

section \<open>Object files in the store\<close>

text \<open>
  A file is an object file when its content is the compression of some payload and its
  path is built from the SHA-1 digest of that payload: the fixed prefix, the first two
  hexadecimal digits, a slash, the other digits. A run writes only object files when
  every file of the store after it was there before or is an object file.
\<close>

definition object_file :: "golib \<Rightarrow> string \<Rightarrow> bytes \<Rightarrow> bool" where
  "object_file L p b =
     (\<exists>payload. b = zlib_Write L payload
        \<and> p = ''.git/objects/'' @ take 2 (hex_EncodeToString (sha1_Sum payload)) @ ''/''
               @ drop 2 (hex_EncodeToString (sha1_Sum payload)))"

definition writes_ok :: "golib \<Rightarrow> world \<Rightarrow> world \<Rightarrow> bool" where
  "writes_ok L w w' = (\<forall>p b. files w' p = Some b \<longrightarrow> files w p = Some b \<or> object_file L p b)"

text \<open>
  A library instance and a world to run the model on concrete inputs: the stand-in
  compressor stores the bytes as they are, and nothing is refused.
\<close>

definition plain_lib :: golib where
  "plain_lib = \<lparr>zlib_Write = (\<lambda>x. x), zlib_Read = Some, unicode_ToLower = (\<lambda>s. s)\<rparr>"

definition empty_world :: world where
  "empty_world =
     \<lparr>dirs = {}, files = Map.empty, mkdir_fails = (\<lambda>_. False), write_fails = (\<lambda>_. False)\<rparr>"

section \<open>Facts about the encodings\<close>

lemma length_put32 [simp]: "length (put32 w) = 4"
  by (simp add: put32_def)

lemma length_sha1_Sum [simp]: "length (sha1_Sum m) = 20"
  by (simp add: sha1_Sum_def Let_def split: prod.split)

lemma sha1_Sum_not_Nil [simp]: "sha1_Sum m \<noteq> []"
  using length_sha1_Sum [of m] by (metis list.size(3) zero_neq_numeral)

lemma length_hex_EncodeToString [simp]: "length (hex_EncodeToString bs) = 2 * length bs"
  by (induction bs) (simp_all add: hex_EncodeToString_def)

text \<open>The model of SHA-1 against the test vector of the standard.\<close>

lemma sha1_abc:
  "hex_EncodeToString (sha1_Sum ''abc'') = ''a9993e364706816aba3e25717850c26c9cd0d89d''"
  by code_simp

lemma sha1_blob_abc:
  "hex_EncodeToString (sha1_Sum (''blob 3'' @ [NUL] @ ''abc''))
     = ''f2ba8f84ab5c1bce84a7b441cb1959cfc7093b7f''"
  by code_simp

lemma of_char_digit: "d < 10 \<Longrightarrow> of_char (digit d) = (48 + d :: nat)"
  by (simp add: digit_def)

lemma undec_snoc: "undec (s @ [c]) = 10 * undec s + (of_char c - 48)"
  by (simp add: undec_def)

lemma undec_dec: "undec (dec n) = n"
proof (induction n rule: dec.induct)
  case (1 n)
  show ?case
  proof (cases "n < 10")
    case True
    then show ?thesis by (simp add: dec.simps [of n] undec_def of_char_digit)
  next
    case False
    with 1 show ?thesis
      by (simp add: dec.simps [of n] undec_snoc of_char_digit)
  qed
qed

lemma dec_digits: "set (dec n) \<subseteq> digit ` {0..<10}"
proof (induction n rule: dec.induct)
  case (1 n)
  show ?case
  proof (cases "n < 10")
    case True
    then show ?thesis by (simp add: dec.simps [of n])
  next
    case False
    with 1 show ?thesis
      by (simp add: dec.simps [of n])
  qed
qed

lemma dec_not_Nil: "dec n \<noteq> []"
  by (subst dec.simps) simp

lemma dec_no_leading_zero: "0 < n \<Longrightarrow> hd (dec n) \<noteq> CHR ''0''"
proof (induction n rule: dec.induct)
  case (1 n)
  show ?case
  proof (cases "n < 10")
    case True
    with 1(2) of_char_digit [of n] have "of_char (digit n) \<noteq> (48 :: nat)" by simp
    then have "digit n \<noteq> CHR ''0''" by auto
    with True show ?thesis by (simp add: dec.simps [of n])
  next
    case False
    then have "0 < n div 10" by simp
    with 1(1) False have "hd (dec (n div 10)) \<noteq> CHR ''0''" by simp
    with False dec_not_Nil [of "n div 10"] show ?thesis
      by (simp add: dec.simps [of n])
  qed
qed

lemma object_path:
  "2 < length hx \<Longrightarrow>
     filepath_Join [filepath_Join [objectsDir, take 2 hx], drop 2 hx]
       = ''.git/objects/'' @ take 2 hx @ ''/'' @ drop 2 hx"
  by (auto simp: filepath_Join_def objectsDir_def)

lemma writeObject_Inr:
  assumes "writeObject h c w = (Inr u, w')" and "length h = 20"
  shows "files w' = (files w)(''.git/objects/'' @ take 2 (hex_EncodeToString h) @ ''/''
                        @ drop 2 (hex_EncodeToString h) \<mapsto> c)"
    and "mkdir_fails w' = mkdir_fails w" and "write_fails w' = write_fails w"
  using assms
  by (auto simp: writeObject_def Let_def object_path split: if_splits)

text \<open>In a world that refuses nothing every write succeeds, and the world stays so.\<close>

lemma writeObject_permissive:
  assumes "length h = 20" and "mkdir_fails w = (\<lambda>_. False)" and "write_fails w = (\<lambda>_. False)"
  shows "\<exists>w'. writeObject h c w = (Inr (), w') \<and> mkdir_fails w' = (\<lambda>_. False)
           \<and> write_fails w' = (\<lambda>_. False)"
  using assms by (auto simp: writeObject_def Let_def)

lemma createObject_permissive:
  assumes "mkdir_fails w = (\<lambda>_. False)" and "write_fails w = (\<lambda>_. False)"
  shows "\<exists>h w'. createObject L k c w = (Inr h, w') \<and> mkdir_fails w' = (\<lambda>_. False)
           \<and> write_fails w' = (\<lambda>_. False)"
proof -
  have "length (sha1_Sum (k @ '' '' @ dec (length c) @ [NUL] @ c)) = 20"
    by simp
  from writeObject_permissive [OF this assms]
  obtain w' where "writeObject (sha1_Sum (k @ '' '' @ dec (length c) @ [NUL] @ c))
        (compressContent L (k @ '' '' @ dec (length c) @ [NUL] @ c)) w = (Inr (), w')"
      and "mkdir_fails w' = (\<lambda>_. False)" and "write_fails w' = (\<lambda>_. False)"
    by blast
  then show ?thesis
    by (simp add: createObject_def Let_def)
qed

section \<open>The codec\<close>

text \<open>
  C1. For every kind and every content, \<open>createObject\<close> hashes exactly the payload
  \<open>kind, space, decimal length of the content, NUL, content\<close> and returns the SHA-1 digest
  of that payload, which has 20 bytes; the compression of the same payload is what it
  stores under the digest's path. The digest depends on kind and content alone: a call
  with another library instance or on another store returns the same one. For the blob
  with content \<open>abc\<close> the payload is \<open>blob 3\<close>, NUL, \<open>abc\<close> and the digest is
  \<open>f2ba8f84ab5c1bce84a7b441cb1959cfc7093b7f\<close>.
\<close>

theorem createObject_payload_digest:
  assumes "createObject L k c w = (Inr h, w')"
  shows "h = sha1_Sum (k @ '' '' @ dec (length c) @ [NUL] @ c) \<and> length h = 20
       \<and> undec (dec (length c)) = length c
       \<and> files w' (''.git/objects/'' @ take 2 (hex_EncodeToString h) @ ''/''
                     @ drop 2 (hex_EncodeToString h))
            = Some (zlib_Write L (k @ '' '' @ dec (length c) @ [NUL] @ c))
       \<and> (\<forall>L2 w2 h2 w2'. createObject L2 k c w2 = (Inr h2, w2') \<longrightarrow> h2 = h)
       \<and> ''blob'' @ '' '' @ dec (length ''abc'') @ [NUL] @ ''abc''
            = ''blob 3'' @ [CHR 0x00] @ ''abc''
       \<and> hex_EncodeToString (sha1_Sum (''blob 3'' @ [CHR 0x00] @ ''abc''))
            = ''f2ba8f84ab5c1bce84a7b441cb1959cfc7093b7f''"
proof -
  have id: "h2 = sha1_Sum (k @ '' '' @ dec (length c) @ [NUL] @ c)"
    if "createObject L2 k c w2 = (Inr h2, w2')" for L2 w2 h2 w2'
    using that by (auto simp: createObject_def Let_def split: prod.splits sum.splits)
  have ex: "dec (length ''abc'') = ''3''"
    by code_simp
  obtain u where wr: "writeObject h (zlib_Write L (k @ '' '' @ dec (length c) @ [NUL] @ c)) w
      = (Inr u, w')"
    using assms id [OF assms]
    by (auto simp: createObject_def Let_def compressContent_def split: prod.splits sum.splits)
  have l: "length h = 20"
    using id [OF assms] by simp
  have st: "files w' (''.git/objects/'' @ take 2 (hex_EncodeToString h) @ ''/''
                     @ drop 2 (hex_EncodeToString h))
            = Some (zlib_Write L (k @ '' '' @ dec (length c) @ [NUL] @ c))"
    using writeObject_Inr(1) [OF wr l] by simp
  show ?thesis
    using id [OF assms] id st sha1_blob_abc
    by (simp add: undec_dec NUL_def ex del: list.size)
qed

theorem createObject_payload_digest_witness:
  "fst (createObject plain_lib ''blob'' ''abc'' empty_world)
     = Inr (sha1_Sum (''blob'' @ '' '' @ dec (length ''abc'') @ [NUL] @ ''abc''))
   \<and> files (snd (createObject plain_lib ''blob'' ''abc'' empty_world))
        ''.git/objects/f2/ba8f84ab5c1bce84a7b441cb1959cfc7093b7f''
        = Some (''blob 3'' @ [NUL] @ ''abc'')"
proof -
  obtain h w' where c: "createObject plain_lib ''blob'' ''abc'' empty_world = (Inr h, w')"
    using createObject_permissive [of empty_world plain_lib "''blob''" "''abc''"]
    by (auto simp: empty_world_def)
  have d: "dec (length ''abc'') = ''3''"
    by code_simp
  from createObject_payload_digest [OF c] have
    h: "h = sha1_Sum (''blob'' @ '' '' @ dec (length ''abc'') @ [NUL] @ ''abc'')" and
    f: "files w' (''.git/objects/'' @ take 2 (hex_EncodeToString h) @ ''/''
                     @ drop 2 (hex_EncodeToString h))
          = Some (zlib_Write plain_lib (''blob'' @ '' '' @ dec (length ''abc'') @ [NUL] @ ''abc''))"
    by blast+
  have x: "hex_EncodeToString h = ''f2ba8f84ab5c1bce84a7b441cb1959cfc7093b7f''"
    using sha1_blob_abc by (simp add: h d del: list.size)
  have f': "files w' ''.git/objects/f2/ba8f84ab5c1bce84a7b441cb1959cfc7093b7f''
      = Some (''blob 3'' @ [NUL] @ ''abc'')"
    using f by (simp add: x d plain_lib_def del: list.size)
  show ?thesis
    by (simp add: c h f')
qed

text \<open>\<open>catFile\<close> decodes what the file at the path of the given id decompresses to.\<close>

lemma catFile_Inr:
  assumes "2 < length blobSHA"
    and "files w (''.git/objects/'' @ take 2 blobSHA @ ''/'' @ drop 2 blobSHA) = Some fileBytes"
    and "zlib_Read L fileBytes = Some content"
  shows "catFile L blobSHA w = blobContent content"
  using assms
  by (auto simp: catFile_def readAndDecompressFile_def filepath_Join_def Let_def)

text \<open>
  C3. The decoding step of \<open>catFile\<close> checks neither the declared length nor the kind tag:
  a payload whose header declares 5 bytes for a 3-byte content, and one of an unknown
  kind, are both decoded without error. A payload with no NUL byte ends in a run-time
  panic.
\<close>

theorem blobContent_accepts_malformed_counterexample:
  "blobContent (''blob 5'' @ [CHR 0x00] @ ''abc'') = Inr ''abc''
   \<and> blobContent (''note 3'' @ [CHR 0x00] @ ''abc'') = Inr ''abc''
   \<and> blobContent ''blob 3abc'' = Inl PanicOutOfRange"
  by (simp add: blobContent_def strings_SplitN2_def NUL_def)

text \<open>
  C3, as the code has it: on every byte sequence with a NUL byte the decoding step
  succeeds and yields the bytes after the first NUL, whatever the header before it says.
\<close>

theorem blobContent_after_first_NUL:
  assumes "NUL \<notin> set hdr"
  shows "blobContent (hdr @ [NUL] @ body) = Inr body"
proof -
  have t: "takeWhile (\<lambda>c. c \<noteq> NUL) (hdr @ NUL # body) = hdr"
    using assms by (induction hdr) auto
  have d: "dropWhile (\<lambda>c. c \<noteq> NUL) (hdr @ NUL # body) = NUL # body"
    using assms by (induction hdr) auto
  show ?thesis
    by (simp add: blobContent_def strings_SplitN2_def t d)
qed

theorem blobContent_after_first_NUL_witness:
  "NUL \<notin> set ''tree 99'' \<and> blobContent (''tree 99'' @ [NUL] @ ''abc'') = Inr ''abc''"
proof -
  have h: "NUL \<notin> set ''tree 99''" by (simp add: NUL_def)
  show ?thesis using h blobContent_after_first_NUL [OF h, of "''abc''"] by simp
qed

section \<open>The object store\<close>

text \<open>
  C4. \<open>writeObject\<close> does not skip the write when the location exists: a store that holds
  the bytes \<open>old\<close> at the path of an id holds \<open>new\<close> there after \<open>writeObject\<close> of that id
  with \<open>new\<close>.
\<close>

theorem writeObject_overwrites_counterexample:
  "files (snd (writeObject (sha1_Sum (''blob 3'' @ [NUL] @ ''abc'')) ''new''
       (empty_world\<lparr>files :=
          [''.git/objects/f2/ba8f84ab5c1bce84a7b441cb1959cfc7093b7f'' \<mapsto> ''old'']\<rparr>)))
     ''.git/objects/f2/ba8f84ab5c1bce84a7b441cb1959cfc7093b7f'' = Some ''new''"
  by (simp add: writeObject_def Let_def filepath_Join_def objectsDir_def
      sha1_blob_abc [simplified] empty_world_def)

text \<open>
  C4, as the code has it: a second \<open>writeObject\<close> of the same id and bytes succeeds and
  leaves the store as the first one left it; the location holds the bytes written,
  whatever it held before.
\<close>

theorem writeObject_twice:
  assumes "length h = 20" and "writeObject h c w = (Inr u, w')"
  shows "writeObject h c w' = (Inr u, w')
       \<and> files w' (''.git/objects/'' @ take 2 (hex_EncodeToString h) @ ''/''
                     @ drop 2 (hex_EncodeToString h)) = Some c"
  using assms
  by (auto simp: writeObject_def Let_def object_path Un_assoc split: if_splits)

theorem writeObject_twice_witness:
  "writeObject (sha1_Sum ''abc'') ''xyz'' (snd (writeObject (sha1_Sum ''abc'') ''xyz'' empty_world))
     = writeObject (sha1_Sum ''abc'') ''xyz'' empty_world
   \<and> fst (writeObject (sha1_Sum ''abc'') ''xyz'' empty_world) = Inr ()"
proof -
  obtain w' where w: "writeObject (sha1_Sum ''abc'') ''xyz'' empty_world = (Inr (), w')"
    using writeObject_permissive [of "sha1_Sum ''abc''" empty_world "''xyz''"]
    by (auto simp: empty_world_def)
  have l: "length (sha1_Sum ''abc'') = 20" by simp
  show ?thesis using writeObject_twice [OF l w] w by simp
qed

section \<open>The order of directory entries\<close>

lemma set_insert_back [simp]: "set (insert_back lt x ys) = insert x (set ys)"
  by (induction ys) auto

lemma mset_insert_back [simp]: "mset (insert_back lt x ys) = add_mset x (mset ys)"
  by (induction ys) auto

lemma mset_foldl_insert_back:
  "mset (foldl (\<lambda>acc x. insert_back lt x acc) acc xs) = mset acc + mset xs"
  by (induction xs arbitrary: acc) auto

lemma mset_sort_Slice [simp]: "mset (sort_Slice lt xs) = mset xs"
  by (simp add: sort_Slice_def mset_foldl_insert_back)

lemma set_sort_Slice [simp]: "set (sort_Slice lt xs) = set xs"
  by (metis mset_sort_Slice set_mset_mset)










lemma insert_back_rel:
  assumes "list_all2 R acc acc'" and "R x x'"
    and "\<And>a a' b b'. R a a' \<Longrightarrow> R b b' \<Longrightarrow> lt a b = lt a' b'"
  shows "list_all2 R (insert_back lt x acc) (insert_back lt x' acc')"
  using assms(1,2)
proof (induction acc acc' rule: list_all2_induct)
  case Nil
  then show ?case by simp
next
  case (Cons y ys y' ys')
  with assms(3) [of x x' y y'] show ?case by auto
qed

lemma sort_Slice_rel:
  assumes "list_all2 R xs xs'"
    and "\<And>a a' b b'. R a a' \<Longrightarrow> R b b' \<Longrightarrow> lt a b = lt a' b'"
  shows "list_all2 R (sort_Slice lt xs) (sort_Slice lt xs')"
proof -
  have "list_all2 R (foldl (\<lambda>acc x. insert_back lt x acc) acc xs)
          (foldl (\<lambda>acc x. insert_back lt x acc) acc' xs')"
    if "list_all2 R acc acc'" for acc acc'
    using assms(1) that
  proof (induction xs xs' arbitrary: acc acc' rule: list_all2_induct)
    case Nil
    then show ?case by simp
  next
    case (Cons x xs x' xs')
    have "list_all2 R (insert_back lt x acc) (insert_back lt x' acc')"
      by (rule insert_back_rel [OF Cons.prems Cons.hyps(1)]) (rule assms(2))
    from Cons.IH [OF this] show ?case by simp
  qed
  from this [of "[]" "[]"] show ?thesis
    by (simp add: sort_Slice_def)
qed

lemma hashEntries_rel:
  assumes "list_all2 (same_entry L) xs xs'"
  shows "hashEntries L xs w = hashEntries L xs' w"
  using assms
proof (induction xs xs' arbitrary: w rule: list_all2_induct)
  case Nil
  then show ?case by simp
next
  case (Cons x xs x' xs')
  obtain nm ch where x: "x = (nm, ch)" by (cases x)
  obtain nm' ch' where x': "x' = (nm', ch')" by (cases x')
  from Cons.hyps(1) x x' have nm: "nm' = nm" and d: "IsDir ch = IsDir ch'"
    and c: "\<And>w. createTreeObjects L ch w = createTreeObjects L ch' w"
    and f: "\<And>fp. ch = File fp \<Longrightarrow> ch' = File fp"
    by (auto simp: same_entry_def)
  show ?case
  proof (cases ch)
    case (File fp)
    with f have "ch' = File fp" by simp
    with File x x' nm Cons.IH show ?thesis
      by (simp split: prod.split sum.split)
  next
    case (Dir es f1)
    with d obtain es' f' where "ch' = Dir es' f'"
      by (cases ch') (auto simp: IsDir_def)
    with Dir x x' nm c [unfolded Dir] Cons.IH show ?thesis
      by (simp del: createTreeObjects.simps split: prod.split sum.split)
  qed
qed

text \<open>
  The same holds when the listings of the directories below are permuted as well.
\<close>

lemma createTreeObjects_same_tree:
  assumes "same_tree n n'"
  shows "createTreeObjects L n w = createTreeObjects L n' w"
  using assms
proof (induction n n' arbitrary: w rule: same_tree.induct)
  case (same_File fp)
  show ?case by simp
next
  case (same_Dir es es')
  let ?lt = "\<lambda>a b :: string \<times> node. strings_ToLower L (fst a) < strings_ToLower L (fst b)"
  have st: "same_tree a b \<Longrightarrow> IsDir a = IsDir b \<and> (\<forall>fp. a = File fp \<longrightarrow> b = File fp)" for a b
    by (erule same_tree.cases) (auto simp: IsDir_def)
  from same_Dir.IH have "list_all2 (same_entry L) (sort_key fst es) (sort_key fst es')"
    by (rule list_all2_mono) (auto simp: same_entry_def dest: st)
  then have "list_all2 (same_entry L) (sort_Slice ?lt (sort_key fst es))
               (sort_Slice ?lt (sort_key fst es'))"
    by (rule sort_Slice_rel) (auto simp: same_entry_def)
  from hashEntries_rel [OF this] show ?case
    by (simp add: os_ReadDir_def Let_def)
qed

section \<open>The tree builder\<close>

lemma createObject_Inr:
  assumes "createObject L k c w = (Inr h, w')"
  shows "h = sha1_Sum (k @ '' '' @ dec (length c) @ [NUL] @ c)"
    and "files w' (''.git/objects/'' @ take 2 (hex_EncodeToString h) @ ''/''
                     @ drop 2 (hex_EncodeToString h))
            = Some (zlib_Write L (k @ '' '' @ dec (length c) @ [NUL] @ c))"
  using assms
  by (auto simp: createObject_def writeObject_def Let_def object_path compressContent_def
      split: prod.splits sum.splits if_splits)

lemma treeObjectContent_concat:
  "treeObjectContent hes = concat (map (\<lambda>he. mode he @ '' '' @ name he @ [NUL] @ hash he) hes)"
proof -
  have "foldl (\<lambda>acc he. acc @ mode he @ '' '' @ name he @ [NUL] @ hash he) acc hes
          = acc @ concat (map (\<lambda>he. mode he @ '' '' @ name he @ [NUL] @ hash he) hes)"
    for acc
    by (induction hes arbitrary: acc) simp_all
  then show ?thesis by (simp add: treeObjectContent_def)
qed

lemma tree_children_kept:
  "tree_children L n = filter kept
     (sort_Slice (\<lambda>a b. strings_ToLower L (fst a) < strings_ToLower L (fst b)) (fst (os_ReadDir n)))"
  by (auto simp: tree_children_def kept_def intro!: filter_cong)

lemma spec_object_id_Dir:
  "spec_object_id L (Dir es f) =
     sha1_Sum (''tree '' @ dec (length (treeObjectContent (map (spec_entry L) (tree_children L (Dir es f)))))
        @ [NUL] @ treeObjectContent (map (spec_entry L) (tree_children L (Dir es f))))"
  by (simp add: treeObjectContent_concat spec_entry_def Let_def comp_def case_prod_unfold)

lemma tree_refine:
  "\<forall>es f h w'. n = Dir es f \<longrightarrow> createTreeObjects L n w = (Inr h, w') \<longrightarrow> h = spec_object_id L n"
  "\<forall>hes w'. hashEntries L entries w = (Inr hes, w') \<longrightarrow>
      hes = map (spec_entry L) (filter kept entries) \<and> (\<forall>e\<in>set (filter kept entries). built L (snd e))"
proof (induction L n w and L entries w rule: createTreeObjects_hashEntries.induct)
  case (1 L n w)
  show ?case
  proof (intro allI impI)
    fix es f h w'
    assume n: "n = Dir es f" and c: "createTreeObjects L n w = (Inr h, w')"
    let ?entries = "sort_Slice (\<lambda>a b. strings_ToLower L (fst a) < strings_ToLower L (fst b))
                      (fst (os_ReadDir n))"
    from c obtain hes w1 where he: "hashEntries L ?entries w = (Inr hes, w1)"
      and co: "createObject L ''tree'' (treeObjectContent hes) w1 = (Inr h, w')"
      by (auto simp: Let_def split: prod.splits sum.splits)
    from 1 [OF refl] he have "hes = map (spec_entry L) (filter kept ?entries)"
      by blast
    then have "hes = map (spec_entry L) (tree_children L n)"
      by (simp add: tree_children_kept)
    with createObject_Inr(1) [OF co] show "h = spec_object_id L n"
      by (simp add: n spec_object_id_Dir del: spec_object_id.simps)
  qed
next
  case (2 L w)
  then show ?case by simp
next
  case (3 L nm es f rest w)
  show ?case
  proof (cases "nm = ''.git''")
    case True
    with 3(1) show ?thesis by (simp add: kept_def IsDir_def)
  next
    case False
    show ?thesis
    proof (intro allI impI)
      fix hes w'
      assume a: "hashEntries L ((nm, Dir es f) # rest) w = (Inr hes, w')"
      from a False obtain h w1 hes' where
        ct: "createTreeObjects L (Dir es f) w = (Inr h, w1)" and
        hr: "hashEntries L rest w1 = (Inr hes', w')" and
        hs: "hes = \<lparr>mode = ''40000'', name = nm, hash = h\<rparr> # hes'"
        by (auto split: prod.splits sum.splits)
      from 3(2) [OF False] ct have h: "h = spec_object_id L (Dir es f)"
        by blast
      from 3(3) [OF False ct [symmetric] refl] hr
      have r: "hes' = map (spec_entry L) (filter kept rest)"
        "\<forall>e\<in>set (filter kept rest). built L (snd e)"
        by blast+
      have b: "built L (Dir es f)"
        using ct h by (auto simp: built_def)
      show "hes = map (spec_entry L) (filter kept ((nm, Dir es f) # rest))
            \<and> (\<forall>e\<in>set (filter kept ((nm, Dir es f) # rest)). built L (snd e))"
        using False hs h r b
        by (simp add: kept_def spec_entry_def entry_mode_def IsDir_def del: spec_object_id.simps)
    qed
  qed
next
  case (4 L nm fp rest w)
  show ?case
  proof (intro allI impI)
    fix hes w'
    assume a: "hashEntries L ((nm, File fp) # rest) w = (Inr hes, w')"
    from a obtain h w1 hes' where
      cf: "createFileBlobObject L fp w = (Inr h, w1)" and
      hr: "hashEntries L rest w1 = (Inr hes', w')" and
      hs: "hes = \<lparr>mode = ''100644'', name = nm, hash = h\<rparr> # hes'"
      by (auto split: prod.splits sum.splits)
    from cf obtain b where fp: "fp = Some b" and co: "createObject L ''blob'' b w = (Inr h, w1)"
      by (auto simp: createFileBlobObject_def split: option.splits)
    from createObject_Inr(1) [OF co] have h: "h = spec_object_id L (File fp)"
      by (simp add: fp)
    from 4 [OF cf [symmetric] refl] hr
    have r: "hes' = map (spec_entry L) (filter kept rest)"
      "\<forall>e\<in>set (filter kept rest). built L (snd e)"
      by blast+
    show "hes = map (spec_entry L) (filter kept ((nm, File fp) # rest))
          \<and> (\<forall>e\<in>set (filter kept ((nm, File fp) # rest)). built L (snd e))"
      using hs h r fp
      by (simp add: kept_def spec_entry_def entry_mode_def IsDir_def built_def
          del: spec_object_id.simps)
  qed
qed







lemma length_spec_object_id [simp]: "length (spec_object_id L n) = 20"
  by (cases n) (simp_all add: Let_def)



lemma sha1_empty_tree:
  "hex_EncodeToString (sha1_Sum (''tree 0'' @ [NUL])) = ''4b825dc642cb6eb9a060e54bf8d69288fbee4904''"
  by code_simp

text \<open>
  An unreadable file among the entries of a directory makes the build of that directory
  fail: no tree object is returned for it.
\<close>

lemma unreadable_file_aborts:
  assumes "(nm, File None) \<in> set (tree_children L (Dir es f))"
  shows "createTreeObjects L (Dir es f) w \<noteq> (Inr h, w')"
proof
  assume c: "createTreeObjects L (Dir es f) w = (Inr h, w')"
  let ?entries = "sort_Slice (\<lambda>a b. strings_ToLower L (fst a) < strings_ToLower L (fst b))
                    (fst (os_ReadDir (Dir es f)))"
  from c obtain hes w1 where "hashEntries L ?entries w = (Inr hes, w1)"
    by (auto simp: Let_def split: prod.splits sum.splits)
  with tree_refine(2) [of L ?entries w] have "\<forall>e\<in>set (tree_children L (Dir es f)). built L (snd e)"
    by (auto simp: tree_children_kept)
  with assms show False
    by (auto simp: built_def)
qed

text \<open>
  C6. A work tree with one subdirectory \<open>sub\<close> that holds a file but cannot be read:
  \<open>os.ReadDir\<close> delivers no entry and an error, which \<open>createTreeObjects\<close> discards. The
  build returns a tree id, and the store holds the empty tree object for \<open>sub\<close>.
\<close>

theorem createTreeObjects_unreadable_directory:
  "map_sum id hex_EncodeToString
     (fst (createTreeObjects plain_lib
        (Dir [(''sub'', Dir [(''f'', File (Some ''x''))] (Some 0))] None) empty_world))
     = Inr ''c6341c38d56386081e9d3612222c7a1c0d8a2a58''
   \<and> files (snd (createTreeObjects plain_lib
        (Dir [(''sub'', Dir [(''f'', File (Some ''x''))] (Some 0))] None) empty_world))
       ''.git/objects/4b/825dc642cb6eb9a060e54bf8d69288fbee4904'' = Some (''tree 0'' @ [NUL])"
  by code_simp

section \<open>Commits\<close>

lemma writeObject_Inl:
  assumes "writeObject h c w = (Inl e, w')"
  shows "files w' = files w"
  using assms by (auto simp: writeObject_def Let_def split: if_splits)

text \<open>
  C8. For a tree id \<open>T\<close>, a parent id \<open>P\<close> and a message \<open>m\<close> in the argument vector,
  the commit content is the line \<open>tree T\<close>, the line \<open>parent P\<close>, the author line, the
  committer line, an empty line and the message followed by a newline. \<open>commitTree\<close>
  hashes \<open>commit\<close>, space, decimal length, NUL and that content, stores its compression
  under the digest's path and prints the digest: it does what \<open>createObject\<close> does for
  the kind \<open>commit\<close>.
\<close>

theorem commitTree_content:
  "let content = ''tree '' @ T @ [NL] @ ''parent '' @ P @ [NL]
         @ ''author John Doe <john@example.com> 1631234567 -0700'' @ [NL]
         @ ''committer Jane Smith <jane@example.com> 1631234789 -0700'' @ [NL]
         @ [NL] @ m @ [NL];
       payload = ''commit '' @ dec (length content) @ [NUL] @ content;
       h = sha1_Sum payload
   in commitTree L (a0 # a1 # T # a3 # P # a5 # m # rest) w
        = (case writeObject h (zlib_Write L payload) w of
             (Inl e, w') \<Rightarrow> (Inl e, w')
           | (Inr _, w') \<Rightarrow> (Inr (hex_EncodeToString h @ [NL]), w'))
      \<and> commitTree L (a0 # a1 # T # a3 # P # a5 # m # rest) w
        = (case createObject L ''commit'' content w of
             (Inl e, w') \<Rightarrow> (Inl e, w')
           | (Inr h', w') \<Rightarrow> (Inr (hex_EncodeToString h' @ [NL]), w'))
      \<and> (\<forall>out w'. commitTree L (a0 # a1 # T # a3 # P # a5 # m # rest) w = (Inr out, w') \<longrightarrow>
            files w' (''.git/objects/'' @ take 2 (hex_EncodeToString h) @ ''/''
                        @ drop 2 (hex_EncodeToString h)) = Some (zlib_Write L payload))"
proof -
  let ?content = "''tree '' @ T @ [NL] @ ''parent '' @ P @ [NL]
         @ ''author John Doe <john@example.com> 1631234567 -0700'' @ [NL]
         @ ''committer Jane Smith <jane@example.com> 1631234789 -0700'' @ [NL]
         @ [NL] @ m @ [NL]"
  let ?payload = "''commit '' @ dec (length ?content) @ [NUL] @ ?content"
  have c: "commitContent T P m = ?content"
    by (simp add: commitContent_def)
  have 0: "commitTree L (a0 # a1 # T # a3 # P # a5 # m # rest) w
        = (case writeObject
                  (sha1_Sum (''commit '' @ dec (length (commitContent T P m)) @ [NUL]
                     @ commitContent T P m))
                  (zlib_Write L (''commit '' @ dec (length (commitContent T P m)) @ [NUL]
                     @ commitContent T P m)) w of
             (Inl e, w') \<Rightarrow> (Inl e, w')
           | (Inr _, w') \<Rightarrow>
               (Inr (hex_EncodeToString
                       (sha1_Sum (''commit '' @ dec (length (commitContent T P m)) @ [NUL]
                          @ commitContent T P m)) @ [NL]), w'))"
    by (simp add: commitTree_def Let_def compressContent_def split: prod.split sum.split)
  have 1: "commitTree L (a0 # a1 # T # a3 # P # a5 # m # rest) w
        = (case writeObject (sha1_Sum ?payload) (zlib_Write L ?payload) w of
             (Inl e, w') \<Rightarrow> (Inl e, w')
           | (Inr _, w') \<Rightarrow> (Inr (hex_EncodeToString (sha1_Sum ?payload) @ [NL]), w'))"
    using 0 unfolding c .
  have 2: "files w' (''.git/objects/'' @ take 2 (hex_EncodeToString (sha1_Sum ?payload)) @ ''/''
                        @ drop 2 (hex_EncodeToString (sha1_Sum ?payload)))
             = Some (zlib_Write L ?payload)"
    if "commitTree L (a0 # a1 # T # a3 # P # a5 # m # rest) w = (Inr out, w')" for out w'
  proof -
    from that obtain u where "writeObject (sha1_Sum ?payload) (zlib_Write L ?payload) w = (Inr u, w')"
      unfolding 1 by (auto split: prod.splits sum.splits)
    from writeObject_Inr(1) [OF this] show ?thesis by simp
  qed
  have 3: "commitTree L (a0 # a1 # T # a3 # P # a5 # m # rest) w
        = (case createObject L ''commit'' ?content w of
             (Inl e, w') \<Rightarrow> (Inl e, w')
           | (Inr h', w') \<Rightarrow> (Inr (hex_EncodeToString h' @ [NL]), w'))"
    unfolding 1 by (simp add: createObject_def Let_def compressContent_def split: prod.split sum.split)
  show ?thesis
    unfolding Let_def using 1 2 3 by blast
qed

theorem commitTree_content_witness:
  "fst (commitTree plain_lib [''mygit'', ''commit-tree'', ''T'', ''-p'', ''P'', ''-m'', ''init'']
          empty_world)
     = Inr (hex_EncodeToString (sha1_Sum (''commit '' @ dec (length (commitContent ''T'' ''P'' ''init''))
              @ [NUL] @ commitContent ''T'' ''P'' ''init'')) @ [NL])"
proof -
  let ?payload = "''commit '' @ dec (length (commitContent ''T'' ''P'' ''init''))
              @ [NUL] @ commitContent ''T'' ''P'' ''init''"
  obtain w' where w: "writeObject (sha1_Sum ?payload) (zlib_Write plain_lib ?payload) empty_world
      = (Inr (), w')"
    using writeObject_permissive [of "sha1_Sum ?payload" empty_world "zlib_Write plain_lib ?payload"]
    by (auto simp: empty_world_def)
  have c: "commitContent ''T'' ''P'' ''init'' = ''tree '' @ ''T'' @ [NL] @ ''parent '' @ ''P'' @ [NL]
         @ ''author John Doe <john@example.com> 1631234567 -0700'' @ [NL]
         @ ''committer Jane Smith <jane@example.com> 1631234789 -0700'' @ [NL]
         @ [NL] @ ''init'' @ [NL]"
    by (simp add: commitContent_def)
  have "commitTree plain_lib [''mygit'', ''commit-tree'', ''T'', ''-p'', ''P'', ''-m'', ''init'']
          empty_world = (Inr (hex_EncodeToString (sha1_Sum ?payload) @ [NL]), w')"
    using commitTree_content [of "''T''" "''P''" "''init''" plain_lib "''mygit''" "''commit-tree''"
        "''-p''" "''-m''" "[]" empty_world] w
    unfolding Let_def c [symmetric] by simp
  then show ?thesis by simp
qed

text \<open>
  C9. Two successful runs of \<open>commitTree\<close> whose arguments 2, 4 and 6 agree print the same
  id and hash the same payload, whatever the library instance, the store and the other
  arguments are.
\<close>

theorem commitTree_deterministic:
  assumes "commitTree L1 args1 w1 = (Inr out1, w1')"
    and "commitTree L2 args2 w2 = (Inr out2, w2')"
    and "args1 ! 2 = args2 ! 2" and "args1 ! 4 = args2 ! 4" and "args1 ! 6 = args2 ! 6"
  shows "let content = commitContent (args1 ! 2) (args1 ! 4) (args1 ! 6);
             payload = ''commit '' @ dec (length content) @ [NUL] @ content;
             path = ''.git/objects/'' @ take 2 (hex_EncodeToString (sha1_Sum payload)) @ ''/''
                      @ drop 2 (hex_EncodeToString (sha1_Sum payload))
         in out1 = out2 \<and> out1 = hex_EncodeToString (sha1_Sum payload) @ [NL]
          \<and> files w1' path = Some (zlib_Write L1 payload)
          \<and> files w2' path = Some (zlib_Write L2 payload)"
proof -
  let ?content = "commitContent (args1 ! 2) (args1 ! 4) (args1 ! 6)"
  let ?payload = "''commit '' @ dec (length ?content) @ [NUL] @ ?content"
  have run: "out = hex_EncodeToString (sha1_Sum ?payload) @ [NL]
      \<and> files w' (''.git/objects/'' @ take 2 (hex_EncodeToString (sha1_Sum ?payload)) @ ''/''
                      @ drop 2 (hex_EncodeToString (sha1_Sum ?payload)))
           = Some (zlib_Write L ?payload)"
    if c: "commitTree L args w = (Inr out, w')"
      and a: "args ! 2 = args1 ! 2" "args ! 4 = args1 ! 4" "args ! 6 = args1 ! 6"
    for L args w out w'
  proof -
    from c a obtain u where
      wo: "writeObject (sha1_Sum ?payload) (zlib_Write L ?payload) w = (Inr u, w')" and
      o: "out = hex_EncodeToString (sha1_Sum ?payload) @ [NL]"
      by (auto simp: commitTree_def Let_def compressContent_def
          split: if_splits prod.splits sum.splits)
    from writeObject_Inr(1) [OF wo] o show ?thesis by simp
  qed
  from run [OF assms(1)] run [OF assms(2)] assms(3-5) show ?thesis
    unfolding Let_def by simp
qed

theorem commitTree_deterministic_witness:
  "fst (commitTree plain_lib [''mygit'', ''commit-tree'', ''T'', ''-p'', ''P'', ''-m'', ''init'']
          empty_world)
     = fst (commitTree (plain_lib\<lparr>zlib_Write := rev\<rparr>)
          [''./git'', ''commit-tree'', ''T'', ''--parent'', ''P'', ''--message'', ''init'', ''extra'']
          (empty_world\<lparr>files := [''x'' \<mapsto> ''y'']\<rparr>))"
proof -
  let ?a1 = "[''mygit'', ''commit-tree'', ''T'', ''-p'', ''P'', ''-m'', ''init'']"
  let ?a2 = "[''./git'', ''commit-tree'', ''T'', ''--parent'', ''P'', ''--message'', ''init'',
              ''extra'']"
  let ?L2 = "plain_lib\<lparr>zlib_Write := rev\<rparr>"
  let ?w2 = "empty_world\<lparr>files := [''x'' \<mapsto> ''y'']\<rparr>"
  let ?payload = "''commit '' @ dec (length (commitContent ''T'' ''P'' ''init''))
              @ [NUL] @ commitContent ''T'' ''P'' ''init''"
  obtain v1 where "writeObject (sha1_Sum ?payload) (zlib_Write plain_lib ?payload) empty_world
      = (Inr (), v1)"
    using writeObject_permissive [of "sha1_Sum ?payload" empty_world "zlib_Write plain_lib ?payload"]
    by (auto simp: empty_world_def)
  then have 1: "commitTree plain_lib ?a1 empty_world
      = (Inr (hex_EncodeToString (sha1_Sum ?payload) @ [NL]), v1)"
    by (simp add: commitTree_def Let_def compressContent_def)
  obtain v2 where "writeObject (sha1_Sum ?payload) (zlib_Write ?L2 ?payload) ?w2 = (Inr (), v2)"
    using writeObject_permissive [of "sha1_Sum ?payload" ?w2 "zlib_Write ?L2 ?payload"]
    by (auto simp: empty_world_def)
  then have 2: "commitTree ?L2 ?a2 ?w2 = (Inr (hex_EncodeToString (sha1_Sum ?payload) @ [NL]), v2)"
    by (simp add: commitTree_def Let_def compressContent_def)
  from commitTree_deterministic [OF 1 2] show ?thesis
    by (simp add: 1 2 Let_def)
qed

section \<open>What the commands leave in the store\<close>

lemma writes_ok_refl [simp]: "writes_ok L w w"
  by (simp add: writes_ok_def)

lemma writes_ok_trans: "writes_ok L w w1 \<Longrightarrow> writes_ok L w1 w2 \<Longrightarrow> writes_ok L w w2"
  by (fastforce simp: writes_ok_def)

lemma writeObject_writes_ok:
  assumes "writeObject (sha1_Sum payload) (zlib_Write L payload) w = (r, w')"
  shows "writes_ok L w w'"
proof (cases r)
  case (Inl e)
  with assms writeObject_Inl [of "sha1_Sum payload" "zlib_Write L payload" w e w']
  show ?thesis by (simp add: writes_ok_def)
next
  case (Inr u)
  with assms writeObject_Inr(1) [of "sha1_Sum payload" "zlib_Write L payload" w u w']
  show ?thesis by (auto simp: writes_ok_def object_file_def)
qed

lemma createObject_writes_ok:
  assumes "createObject L k c w = (r, w')"
  shows "writes_ok L w w'"
proof -
  obtain r0 where "writeObject (sha1_Sum (k @ '' '' @ dec (length c) @ [NUL] @ c))
      (zlib_Write L (k @ '' '' @ dec (length c) @ [NUL] @ c)) w = (r0, w')"
    using assms
    by (auto simp: createObject_def Let_def compressContent_def split: prod.splits sum.splits)
  then show ?thesis by (rule writeObject_writes_ok)
qed

lemma tree_writes_ok:
  "\<forall>r w'. createTreeObjects L n w = (r, w') \<longrightarrow> writes_ok L w w'"
  "\<forall>r w'. hashEntries L entries w = (r, w') \<longrightarrow> writes_ok L w w'"
proof (induction L n w and L entries w rule: createTreeObjects_hashEntries.induct)
  case (1 L n w)
  show ?case
  proof (intro allI impI)
    fix r w'
    assume c: "createTreeObjects L n w = (r, w')"
    let ?entries = "sort_Slice (\<lambda>a b. strings_ToLower L (fst a) < strings_ToLower L (fst b))
                      (fst (os_ReadDir n))"
    obtain r1 w1 where he: "hashEntries L ?entries w = (r1, w1)"
      by (cases "hashEntries L ?entries w")
    with 1 [OF refl] have ok1: "writes_ok L w w1" by blast
    show "writes_ok L w w'"
    proof (cases r1)
      case (Inl e)
      with c he have "w' = w1" by (simp add: Let_def)
      with ok1 show ?thesis by simp
    next
      case (Inr hes)
      with c he have "createObject L ''tree'' (treeObjectContent hes) w1 = (r, w')"
        by (simp add: Let_def)
      from createObject_writes_ok [OF this] ok1 show ?thesis
        by (blast intro: writes_ok_trans)
    qed
  qed
next
  case (2 L w)
  then show ?case by simp
next
  case (3 L nm es f rest w)
  show ?case
  proof (cases "nm = ''.git''")
    case True
    with 3(1) show ?thesis by simp
  next
    case False
    show ?thesis
    proof (intro allI impI)
      fix r w'
      assume a: "hashEntries L ((nm, Dir es f) # rest) w = (r, w')"
      obtain r1 w1 where ct: "createTreeObjects L (Dir es f) w = (r1, w1)"
        by (cases "createTreeObjects L (Dir es f) w")
      with 3(2) [OF False] have ok1: "writes_ok L w w1" by blast
      show "writes_ok L w w'"
      proof (cases r1)
        case (Inl e)
        with a ct False have "w' = w1" by simp
        with ok1 show ?thesis by simp
      next
        case (Inr h)
        obtain r2 w2 where hr: "hashEntries L rest w1 = (r2, w2)"
          by (cases "hashEntries L rest w1")
        with 3(3) [OF False _ Inr, of w1] ct Inr have ok2: "writes_ok L w1 w2"
          by auto
        from a ct Inr hr False have "w' = w2"
          by (auto split: sum.splits)
        with ok1 ok2 show ?thesis by (blast intro: writes_ok_trans)
      qed
    qed
  qed
next
  case (4 L nm fp rest w)
  show ?case
  proof (intro allI impI)
    fix r w'
    assume a: "hashEntries L ((nm, File fp) # rest) w = (r, w')"
    obtain r1 w1 where cf: "createFileBlobObject L fp w = (r1, w1)"
      by (cases "createFileBlobObject L fp w")
    have ok1: "writes_ok L w w1"
    proof (cases fp)
      case None
      with cf show ?thesis by (simp add: createFileBlobObject_def)
    next
      case (Some b)
      with cf have "createObject L ''blob'' b w = (r1, w1)"
        by (simp add: createFileBlobObject_def)
      then show ?thesis by (rule createObject_writes_ok)
    qed
    show "writes_ok L w w'"
    proof (cases r1)
      case (Inl e)
      with a cf have "w' = w1" by simp
      with ok1 show ?thesis by simp
    next
      case (Inr h)
      obtain r2 w2 where hr: "hashEntries L rest w1 = (r2, w2)"
        by (cases "hashEntries L rest w1")
      with 4 [OF _ Inr, of w1] cf Inr have ok2: "writes_ok L w1 w2"
        by auto
      from a cf Inr hr have "w' = w2"
        by (auto split: sum.splits)
      with ok1 ok2 show ?thesis by (blast intro: writes_ok_trans)
    qed
  qed
qed

lemma hashObject_writes_ok:
  assumes "hashObject L fp w = (r, w')"
  shows "writes_ok L w w'"
proof (cases fp)
  case None
  with assms show ?thesis by (simp add: hashObject_def)
next
  case (Some b)
  obtain r1 w1 where c: "createObject L ''blob'' b w = (r1, w1)"
    by (cases "createObject L ''blob'' b w")
  with assms Some have "w' = w1"
    by (auto simp: hashObject_def split: sum.splits)
  with createObject_writes_ok [OF c] show ?thesis by simp
qed

lemma writeTree_writes_ok:
  assumes "writeTree L root w = (r, w')"
  shows "writes_ok L w w'"
proof -
  obtain r1 w1 where c: "createTreeObjects L root w = (r1, w1)"
    by (cases "createTreeObjects L root w")
  with assms have "w' = w1"
    by (auto simp: writeTree_def split: sum.splits)
  with tree_writes_ok(1) [of L root w] c show ?thesis by simp
qed

lemma commitTree_writes_ok:
  assumes "commitTree L args w = (r, w')"
  shows "writes_ok L w w'"
proof (cases "length args < 7")
  case True
  with assms show ?thesis by (simp add: commitTree_def)
next
  case False
  let ?content = "commitContent (args ! 2) (args ! 4) (args ! 6)"
  let ?payload = "(''commit '' @ dec (length ?content) @ [NUL]) @ ?content"
  obtain r1 w1 where c: "writeObject (sha1_Sum ?payload) (zlib_Write L ?payload) w = (r1, w1)"
    by (cases "writeObject (sha1_Sum ?payload) (zlib_Write L ?payload) w")
  with assms False have "w' = w1"
    by (auto simp: commitTree_def Let_def compressContent_def split: sum.splits)
  with writeObject_writes_ok [OF c] show ?thesis by simp
qed

text \<open>
  C10. Every file that \<open>hashObject\<close>, \<open>writeTree\<close> or \<open>commitTree\<close> writes or rewrites,
  also in a run that stops early, holds the compression of a payload and lies at
  \<open>.git/objects/\<close>, the first 2 hexadecimal digits of the payload's SHA-1 digest, a
  slash, the other 38 digits. With a library whose decompression undoes its compression,
  reading and decompressing the file gives that payload back, whose digest is the one in
  the path.
\<close>

theorem object_files_match_their_path:
  assumes "hashObject L fp w = (r, w') \<or> writeTree L root w = (r, w')
             \<or> commitTree L args w = (r, w')"
    and "files w' p = Some b" and "files w p \<noteq> Some b"
  shows "\<exists>payload. b = zlib_Write L payload
           \<and> p = ''.git/objects/'' @ take 2 (hex_EncodeToString (sha1_Sum payload)) @ ''/''
                  @ drop 2 (hex_EncodeToString (sha1_Sum payload))
           \<and> length (take 2 (hex_EncodeToString (sha1_Sum payload))) = 2
           \<and> length (drop 2 (hex_EncodeToString (sha1_Sum payload))) = 38
           \<and> ((\<forall>x. zlib_Read L (zlib_Write L x) = Some x) \<longrightarrow>
                readAndDecompressFile L p w' = Inr payload)"
proof -
  from assms(1) have "writes_ok L w w'"
    using hashObject_writes_ok writeTree_writes_ok commitTree_writes_ok by blast
  with assms(2,3) obtain payload where b: "b = zlib_Write L payload"
    and p: "p = ''.git/objects/'' @ take 2 (hex_EncodeToString (sha1_Sum payload)) @ ''/''
               @ drop 2 (hex_EncodeToString (sha1_Sum payload))"
    by (auto simp: writes_ok_def object_file_def)
  have "readAndDecompressFile L p w' = Inr payload"
    if "\<forall>x. zlib_Read L (zlib_Write L x) = Some x"
    using that assms(2) b by (simp add: readAndDecompressFile_def)
  with b p show ?thesis by auto
qed

theorem object_files_match_their_path_witness:
  "readAndDecompressFile plain_lib ''.git/objects/f2/ba8f84ab5c1bce84a7b441cb1959cfc7093b7f''
     (snd (hashObject plain_lib (Some ''abc'') empty_world)) = Inr (''blob 3'' @ [NUL] @ ''abc'')"
proof -
  let ?p = "''.git/objects/f2/ba8f84ab5c1bce84a7b441cb1959cfc7093b7f''"
  let ?b = "''blob 3'' @ [NUL] @ ''abc''"
  obtain h w' where c: "createObject plain_lib ''blob'' ''abc'' empty_world = (Inr h, w')"
    using createObject_permissive [of empty_world plain_lib "''blob''" "''abc''"]
    by (auto simp: empty_world_def)
  have d: "dec (length ''abc'') = ''3''"
    by code_simp
  have h: "h = sha1_Sum ?b"
    using createObject_Inr(1) [OF c] by (simp add: d del: list.size)
  have x: "hex_EncodeToString h = ''f2ba8f84ab5c1bce84a7b441cb1959cfc7093b7f''"
    using sha1_blob_abc by (simp add: h)
  have f: "files w' ?p = Some ?b"
    using createObject_Inr(2) [OF c] by (simp add: x d plain_lib_def del: list.size)
  have r: "hashObject plain_lib (Some ''abc'') empty_world = (Inr (hex_EncodeToString h @ [NL]), w')"
    by (simp add: hashObject_def c)
  have e: "files empty_world ?p \<noteq> Some ?b"
    by (simp add: empty_world_def)
  have rt: "\<forall>x. zlib_Read plain_lib (zlib_Write plain_lib x) = Some x"
    by (simp add: plain_lib_def)
  from object_files_match_their_path [of plain_lib "Some ''abc''" empty_world _ w' _ _ ?p ?b,
      OF disjI1 [OF r] f e] rt
  obtain payload where b: "?b = zlib_Write plain_lib payload"
    and rd: "readAndDecompressFile plain_lib ?p w' = Inr payload"
    by blast
  from b have "payload = ?b"
    by (simp add: plain_lib_def)
  with rd show ?thesis
    by (simp add: r)
qed

end
